theory Spec2Isabelle
  imports Complex_Main "HOL-Library.AList"
begin

section \<open>Data model (src/types.ts)\<close>

text \<open>
  The interfaces of \<^verbatim>\<open>types.ts\<close> become records. A JavaScript \<^verbatim>\<open>Map\<close> that the code
  iterates over (\<^verbatim>\<open>matches\<close>) is an association list kept in insertion order
  (\<^verbatim>\<open>get\<close> is \<open>map_of\<close>, \<^verbatim>\<open>set\<close> is \<open>AList.update\<close>, \<^verbatim>\<open>delete\<close> is \<open>AList.delete\<close>);
  the \<^verbatim>\<open>Map\<close> and the objects that are only read and written by key are partial
  functions, so a player identifier is taken not to be the name of a property that every
  object inherits. Timestamps are the integer milliseconds of \<^verbatim>\<open>Date.now()\<close>; the values
  computed from them by division are exact rationals (the doubles of the source, without
  their rounding error). A score is an integer or, once \<^verbatim>\<open>+=\<close> has met a missing
  entry, \<^verbatim>\<open>NaN\<close>. A match object is reachable only through the table, under its own
  identifier, so mutating it in place is storing the changed match under that identifier.
\<close>

record Player =
  player_id :: string
  name :: string
  socketId :: string
  photo :: "string option"

record Round =
  snippetURL :: string
  options :: "string list"
  correctAnswer :: string

datatype MatchState = waiting | playing | finished

datatype jsnum = Num int | NaN

record Match =
  match_id :: string
  player1Id :: string
  player2Id :: string
  currentRound :: int
  rounds :: "Round list"
  scores :: "string \<rightharpoonup> jsnum"
  state :: MatchState
  roundStartTime :: "int option"
  playerAnswers :: "string \<rightharpoonup> string"
  roundTimeLimit :: int

record PlayerGuess =
  roundNumber :: int
  guess :: string
  timestamp :: int

record RoundResult =
  rr_correctAnswer :: string
  rr_scores :: "string \<rightharpoonup> jsnum"
  rr_playerAnswers :: "string \<rightharpoonup> string"
  rr_roundNumber :: int

record GameManager =
  matches :: "(string \<times> Match) list"
  waitingPlayers :: "Player list"
  playerMatches :: "string \<rightharpoonup> string"

text \<open>The only exception the class can raise: reading a property of \<^verbatim>\<open>undefined\<close>.\<close>

datatype error = TypeError

definition init :: GameManager where
  "init = \<lparr>matches = [], waitingPlayers = [], playerMatches = Map.empty\<rparr>"

definition songDatabase :: "Round list" where
  "songDatabase =
    [\<lparr>snippetURL = ''https://example.com/audio/dynamite.mp3'',
      options = [''Dynamite'', ''Butter'', ''Permission to Dance'', ''Life Goes On''],
      correctAnswer = ''Dynamite''\<rparr>,
     \<lparr>snippetURL = ''https://example.com/audio/gangnam-style.mp3'',
      options = [''Gangnam Style'', ''Gentleman'', ''Daddy'', ''New Face''],
      correctAnswer = ''Gangnam Style''\<rparr>,
     \<lparr>snippetURL = ''https://example.com/audio/how-you-like-that.mp3'',
      options = [''How You Like That'', ''Kill This Love'', ''DDU-DU DDU-DU'', ''Lovesick Girls''],
      correctAnswer = ''How You Like That''\<rparr>,
     \<lparr>snippetURL = ''https://example.com/audio/next-level.mp3'',
      options = [''Next Level'', ''Savage'', ''Black Mamba'', ''My World''],
      correctAnswer = ''Next Level''\<rparr>,
     \<lparr>snippetURL = ''https://example.com/audio/god-menu.mp3'',
      options = [''God's Menu'', ''Back Door'', ''Thunderous'', ''MANIAC''],
      correctAnswer = ''God's Menu''\<rparr>,
     \<lparr>snippetURL = ''https://example.com/audio/fancy.mp3'',
      options = [''Fancy'', ''Feel Special'', ''More & More'', ''I Can't Stop Me''],
      correctAnswer = ''Fancy''\<rparr>,
     \<lparr>snippetURL = ''https://example.com/audio/love-scenario.mp3'',
      options = [''Love Scenario'', ''Killing Me'', ''Goodbye Road'', ''Why Why Why''],
      correctAnswer = ''Love Scenario''\<rparr>,
     \<lparr>snippetURL = ''https://example.com/audio/spring-day.mp3'',
      options = [''Spring Day'', ''Blood Sweat & Tears'', ''Fire'', ''Save ME''],
      correctAnswer = ''Spring Day''\<rparr>]"

section \<open>Operations (src/gameManager.ts)\<close>

subsection \<open>Match construction\<close>

text \<open>
  \<^verbatim>\<open>generateRounds\<close>: \<open>shuffled\<close> is the outcome of the random sort of a copy of the
  song database; the function keeps its first \<open>min count (length shuffled)\<close> entries.
\<close>

definition generateRounds :: "Round list \<Rightarrow> nat \<Rightarrow> Round list" where
  "generateRounds shuffled count = take (min count (length shuffled)) shuffled"

text \<open>
  \<^verbatim>\<open>createMatch\<close>: \<open>uuid\<close> is the value \<^verbatim>\<open>uuidv4()\<close> returns. Both \<^verbatim>\<open>shift()\<close> calls run
  before \<^verbatim>\<open>player1.id\<close> is read, so with fewer than two waiting players the list is left
  empty and the read of \<^verbatim>\<open>undefined.id\<close> throws.
\<close>

definition createMatch :: "string \<Rightarrow> Round list \<Rightarrow> GameManager \<Rightarrow> (error + string) \<times> GameManager" where
  "createMatch uuid shuffled s =
    (case waitingPlayers s of
       player1 # player2 # rest \<Rightarrow>
         (let matchId = uuid;
              rounds = generateRounds shuffled 5;
              match = \<lparr>match_id = matchId,
                       player1Id = player_id player1,
                       player2Id = player_id player2,
                       currentRound = 0,
                       rounds = rounds,
                       scores = (Map.empty(player_id player1 \<mapsto> Num 0))(player_id player2 \<mapsto> Num 0),
                       state = waiting,
                       roundStartTime = None,
                       playerAnswers = Map.empty,
                       roundTimeLimit = 15\<rparr>
          in (Inr matchId,
              s\<lparr>waitingPlayers := rest,
                matches := AList.update matchId match (matches s),
                playerMatches := ((playerMatches s)(player_id player1 \<mapsto> matchId))
                                   (player_id player2 \<mapsto> matchId)\<rparr>))
     | _ \<Rightarrow> (Inl TypeError, s\<lparr>waitingPlayers := []\<rparr>))"

definition addPlayerToQueue ::
  "Player \<Rightarrow> string \<Rightarrow> Round list \<Rightarrow> GameManager \<Rightarrow> (error + string option) \<times> GameManager" where
  "addPlayerToQueue player uuid shuffled s =
    (if playerMatches s (player_id player) \<noteq> None then (Inr None, s)
     else
       let s1 = s\<lparr>waitingPlayers :=
                    filter (\<lambda>p. player_id p \<noteq> player_id player) (waitingPlayers s)\<rparr>;
           s2 = s1\<lparr>waitingPlayers := waitingPlayers s1 @ [player]\<rparr>
       in if length (waitingPlayers s2) \<ge> 2
          then (case createMatch uuid shuffled s2 of
                  (Inl e, s3) \<Rightarrow> (Inl e, s3)
                | (Inr matchId, s3) \<Rightarrow> (Inr (Some matchId), s3))
          else (Inr None, s2))"

subsection \<open>Round lifecycle\<close>

text \<open>\<^verbatim>\<open>startMatch\<close>: \<open>now\<close> is the value \<^verbatim>\<open>Date.now()\<close> returns.\<close>

definition startMatch :: "string \<Rightarrow> int \<Rightarrow> GameManager \<Rightarrow> Match option \<times> GameManager" where
  "startMatch matchId now s =
    (case map_of (matches s) matchId of
       None \<Rightarrow> (None, s)
     | Some match \<Rightarrow>
         (let match' = match\<lparr>state := playing, currentRound := 1, roundStartTime := Some now\<rparr>
          in (Some match', s\<lparr>matches := AList.update matchId match' (matches s)\<rparr>)))"

text \<open>\<^verbatim>\<open>match.rounds[n - 1]\<close>, which is \<^verbatim>\<open>undefined\<close> out of range.\<close>

definition round_at :: "Round list \<Rightarrow> int \<Rightarrow> Round option" where
  "round_at rs n = (if 1 \<le> n \<and> n \<le> int (length rs) then Some (rs ! nat (n - 1)) else None)"

definition getCurrentRound :: "string \<Rightarrow> GameManager \<Rightarrow> Round option" where
  "getCurrentRound matchId s =
    (case map_of (matches s) matchId of
       None \<Rightarrow> None
     | Some match \<Rightarrow>
         if currentRound match = 0 \<or> currentRound match > int (length (rounds match)) then None
         else round_at (rounds match) (currentRound match))"

text \<open>\<^verbatim>\<open>Math.round\<close>: the nearest integer, a tie going up.\<close>

definition js_round :: "rat \<Rightarrow> int" where
  "js_round x = \<lfloor>x + 1 / 2\<rfloor>"

text \<open>\<^verbatim>\<open>match.roundStartTime || 0\<close>: an unset anchor reads as 0.\<close>

definition or0 :: "int option \<Rightarrow> int" where
  "or0 start = (case start of None \<Rightarrow> 0 | Some t \<Rightarrow> t)"

text \<open>The points of a correct guess (lines 140 to 142 of \<^verbatim>\<open>submitGuess\<close>).\<close>

definition points :: "int \<Rightarrow> int option \<Rightarrow> int \<Rightarrow> int" where
  "points ts start limit =
    (let timeElapsed = rat_of_int (ts - or0 start) / 1000;
         speedBonus = max 0 (rat_of_int limit - timeElapsed)
     in js_round (100 + speedBonus * 10))"

text \<open>\<^verbatim>\<open>match.scores[playerId] += points\<close>: a missing entry or \<^verbatim>\<open>NaN\<close> gives \<^verbatim>\<open>NaN\<close>.\<close>

fun js_add :: "jsnum option \<Rightarrow> int \<Rightarrow> jsnum" where
  "js_add (Some (Num n)) p = Num (n + p)"
| "js_add _ p = NaN"

text \<open>\<^verbatim>\<open>isRoundTimeUp\<close>: \<^verbatim>\<open>!match.roundStartTime\<close> holds for an unset anchor and for 0.\<close>

definition isRoundTimeUp :: "Match \<Rightarrow> int \<Rightarrow> bool" where
  "isRoundTimeUp match now =
    (case roundStartTime match of
       None \<Rightarrow> False
     | Some t \<Rightarrow>
         if t = 0 then False
         else rat_of_int (now - t) / 1000 \<ge> rat_of_int (roundTimeLimit match))"

definition finishRound :: "Match \<Rightarrow> error + (RoundResult \<times> Match)" where
  "finishRound match =
    (case round_at (rounds match) (currentRound match) of
       None \<Rightarrow> Inl TypeError
     | Some cr \<Rightarrow>
         (let result = \<lparr>rr_correctAnswer = correctAnswer cr,
                        rr_scores = scores match,
                        rr_playerAnswers = playerAnswers match,
                        rr_roundNumber = currentRound match\<rparr>;
              m1 = match\<lparr>playerAnswers := Map.empty\<rparr>;
              m2 = (if currentRound m1 \<ge> int (length (rounds m1))
                    then m1\<lparr>state := finished\<rparr>
                    else m1\<lparr>currentRound := currentRound m1 + 1, roundStartTime := None\<rparr>)
          in Inr (result, m2)))"

text \<open>
  \<^verbatim>\<open>submitGuess\<close>: the match object is mutated in place, so every exit after line 134
  stores the match as changed so far, the exit by exception included.
\<close>

definition submitGuess ::
  "string \<Rightarrow> string \<Rightarrow> PlayerGuess \<Rightarrow> int \<Rightarrow> GameManager
     \<Rightarrow> (error + RoundResult option) \<times> GameManager" where
  "submitGuess matchId playerId g now s =
    (case map_of (matches s) matchId of
       None \<Rightarrow> (Inr None, s)
     | Some match \<Rightarrow>
         if state match \<noteq> playing \<or> roundNumber g \<noteq> currentRound match then (Inr None, s)
         else
           let store = (\<lambda>m. s\<lparr>matches := AList.update matchId m (matches s)\<rparr>);
               m1 = match\<lparr>playerAnswers := (playerAnswers match)(playerId \<mapsto> guess g)\<rparr>
           in (case round_at (rounds m1) (currentRound m1) of
                 None \<Rightarrow> (Inl TypeError, store m1)
               | Some cr \<Rightarrow>
                   (let m2 = (if guess g = correctAnswer cr
                              then m1\<lparr>scores := (scores m1)(playerId \<mapsto>
                                     js_add (scores m1 playerId)
                                       (points (timestamp g) (roundStartTime m1) (roundTimeLimit m1)))\<rparr>
                              else m1);
                        allAnswered = (playerAnswers m2 (player1Id m2) \<noteq> None
                                        \<and> playerAnswers m2 (player2Id m2) \<noteq> None)
                    in if allAnswered \<or> isRoundTimeUp m2 now
                       then (case finishRound m2 of
                               Inl e \<Rightarrow> (Inl e, store m2)
                             | Inr (result, m3) \<Rightarrow> (Inr (Some result), store m3))
                       else (Inr None, store m2))))"

subsection \<open>Forfeit and retention\<close>

text \<open>\<^verbatim>\<open>removePlayer\<close>: \<^verbatim>\<open>if (matchId)\<close> is false for a missing mapping and for the empty string.\<close>

definition removePlayer :: "string \<Rightarrow> GameManager \<Rightarrow> GameManager" where
  "removePlayer playerId s =
    (let s1 = s\<lparr>waitingPlayers := filter (\<lambda>p. player_id p \<noteq> playerId) (waitingPlayers s)\<rparr>
     in case playerMatches s1 playerId of
          None \<Rightarrow> s1
        | Some matchId \<Rightarrow>
            if matchId = [] then s1
            else
              let s2 = (case map_of (matches s1) matchId of
                          None \<Rightarrow> s1
                        | Some match \<Rightarrow>
                            if state match \<noteq> finished
                            then s1\<lparr>matches := AList.update matchId (match\<lparr>state := finished\<rparr>) (matches s1)\<rparr>
                            else s1)
              in s2\<lparr>playerMatches := (playerMatches s2)(playerId := None)\<rparr>)"

text \<open>
  \<^verbatim>\<open>cleanupFinishedMatches\<close>: the test of line 245, then the loop over the entries. The body
  deletes only the entry it is visiting, so the loop runs over the entries as they were.
\<close>

definition expired :: "int \<Rightarrow> Match \<Rightarrow> bool" where
  "expired oneHourAgo match \<longleftrightarrow>
     state match = finished
     \<and> or0 (roundStartTime match) < oneHourAgo"

definition cleanupEntry :: "int \<Rightarrow> string \<times> Match \<Rightarrow> GameManager \<Rightarrow> GameManager" where
  "cleanupEntry oneHourAgo e s =
    (case e of (matchId, match) \<Rightarrow>
       if expired oneHourAgo match
       then s\<lparr>matches := AList.delete matchId (matches s),
              playerMatches := ((playerMatches s)(player1Id match := None))(player2Id match := None)\<rparr>
       else s)"

definition cleanupFinishedMatches :: "int \<Rightarrow> GameManager \<Rightarrow> GameManager" where
  "cleanupFinishedMatches now s =
    (let oneHourAgo = now - (60 * 60 * 1000)
     in fold (cleanupEntry oneHourAgo) (matches s) s)"

subsection \<open>Histories of calls\<close>

text \<open>
  A caller's call to one public method, with the values the method draws from its
  environment (the UUID, the shuffled database, the clock).
\<close>

datatype call =
    Enqueue Player string "Round list"
  | StartMatch string int
  | SubmitGuess string string PlayerGuess int
  | RemovePlayer string
  | Cleanup int

fun step :: "GameManager \<Rightarrow> call \<Rightarrow> GameManager" where
  "step s (Enqueue p uuid shuffled) = snd (addPlayerToQueue p uuid shuffled s)"
| "step s (StartMatch matchId now) = snd (startMatch matchId now s)"
| "step s (SubmitGuess matchId playerId g now) = snd (submitGuess matchId playerId g now s)"
| "step s (RemovePlayer playerId) = removePlayer playerId s"
| "step s (Cleanup now) = cleanupFinishedMatches now s"

definition run :: "call list \<Rightarrow> GameManager" where
  "run cs = foldl step init cs"

subsection \<open>Auxiliary notions for the proofs\<close>

text \<open>
  The match as \<^verbatim>\<open>submitGuess\<close> has changed it when it reaches line 147: the answer is
  stored and, if it is the correct one, the points are added.
\<close>

definition scored :: "Match \<Rightarrow> Round \<Rightarrow> string \<Rightarrow> PlayerGuess \<Rightarrow> Match" where
  "scored m cr playerId g =
    (let m1 = m\<lparr>playerAnswers := (playerAnswers m)(playerId \<mapsto> guess g)\<rparr>
     in if guess g = correctAnswer cr
        then m1\<lparr>scores := (scores m1)(playerId \<mapsto>
               js_add (scores m1 playerId)
                 (points (timestamp g) (roundStartTime m1) (roundTimeLimit m1)))\<rparr>
        else m1)"

text \<open>
  What every history of calls preserves: the waiting players have pairwise different
  identifiers and no mapping, every match has two different players, and the match table
  has one entry per identifier.
\<close>

definition queue_inv :: "GameManager \<Rightarrow> bool" where
  "queue_inv s \<longleftrightarrow>
     distinct (map player_id (waitingPlayers s))
     \<and> (\<forall>p \<in> set (waitingPlayers s). playerMatches s (player_id p) = None)
     \<and> (\<forall>e \<in> set (matches s). player1Id (snd e) \<noteq> player2Id (snd e))
     \<and> distinct (map fst (matches s))"

subsection \<open>Concrete players, calls and states\<close>

definition alice :: Player where
  "alice = \<lparr>player_id = ''alice'', name = ''Alice'', socketId = ''socket-a'', photo = None\<rparr>"

definition bob :: Player where
  "bob = \<lparr>player_id = ''bob'', name = ''Bob'', socketId = ''socket-b'', photo = None\<rparr>"

text \<open>Alice and Bob enqueue; the match \<open>''m1''\<close> is created on Bob's call.\<close>

definition pairing_calls :: "call list" where
  "pairing_calls = [Enqueue alice ''m0'' songDatabase, Enqueue bob ''m1'' songDatabase]"

text \<open>The server then starts the first round at time 1000000.\<close>

definition opening_calls :: "call list" where
  "opening_calls = pairing_calls @ [StartMatch ''m1'' 1000000]"

text \<open>Alice answers the first round correctly at once.\<close>

definition first_answer_calls :: "call list" where
  "first_answer_calls = opening_calls @
     [SubmitGuess ''m1'' ''alice''
        \<lparr>roundNumber = 1, guess = ''Dynamite'', timestamp = 1000000\<rparr> 1000000]"

text \<open>Bob answers wrongly five seconds later, which resolves the first round.\<close>

definition round1_calls :: "call list" where
  "round1_calls = first_answer_calls @
     [SubmitGuess ''m1'' ''bob''
        \<lparr>roundNumber = 1, guess = ''Butter'', timestamp = 1005000\<rparr> 1005000]"

text \<open>
  A state no history of calls reaches: Alice waits at the head of the queue although she
  is mapped to the match \<open>''m1''\<close>, which is being played.
\<close>

definition overlapping :: GameManager where
  "overlapping =
    \<lparr>matches = [(''m1'',
        \<lparr>match_id = ''m1'', player1Id = ''alice'', player2Id = ''carol'', currentRound = 1,
         rounds = take 5 songDatabase,
         scores = [''alice'' \<mapsto> Num 0, ''carol'' \<mapsto> Num 0],
         state = playing, roundStartTime = Some 1000000, playerAnswers = Map.empty,
         roundTimeLimit = 15\<rparr>)],
     waitingPlayers = [alice, bob],
     playerMatches = [''alice'' \<mapsto> ''m1'', ''carol'' \<mapsto> ''m1'']\<rparr>"

text \<open>The match \<open>''m1''\<close> once its first round has been started.\<close>

definition opening_match :: Match where
  "opening_match =
    \<lparr>match_id = ''m1'', player1Id = ''alice'', player2Id = ''bob'', currentRound = 1,
     rounds = take 5 songDatabase,
     scores = [''alice'' \<mapsto> Num 0, ''bob'' \<mapsto> Num 0],
     state = playing, roundStartTime = Some 1000000, playerAnswers = Map.empty,
     roundTimeLimit = 15\<rparr>"

text \<open>Alice leaves while the first round is being played.\<close>

definition forfeited_calls :: "call list" where
  "forfeited_calls = opening_calls @ [RemovePlayer ''alice'']"

text \<open>Further players, with no more than an identifier.\<close>

definition guest :: "string \<Rightarrow> Player" where
  "guest i = \<lparr>player_id = i, name = i, socketId = i, photo = None\<rparr>"

text \<open>
  Three matches: \<open>''m1''\<close> finished with its anchor cleared (Alice left after the
  first round was resolved), \<open>''m2''\<close> finished with the anchor 5000000 (Carol left
  during its first round), and \<open>''m3''\<close> not started yet.
\<close>

definition sweep_calls :: "call list" where
  "sweep_calls = round1_calls @
     [RemovePlayer ''alice'',
      Enqueue (guest ''carol'') ''m2'' songDatabase,
      Enqueue (guest ''dave'') ''m2'' songDatabase,
      StartMatch ''m2'' 5000000,
      RemovePlayer ''carol'',
      Enqueue (guest ''erin'') ''m3'' songDatabase,
      Enqueue (guest ''frank'') ''m3'' songDatabase]"

text \<open>
  The same opening an hour and more after the epoch of the clock: the first round of
  \<open>''m1''\<close> starts at 10000000.
\<close>

definition late_opening_calls :: "call list" where
  "late_opening_calls = pairing_calls @ [StartMatch ''m1'' 10000000]"

text \<open>
  Alice answers at once, Bob five seconds later, which resolves the first round and
  clears the anchor; then Alice leaves, in the pause before the second round.
\<close>

definition pause_forfeit_calls :: "call list" where
  "pause_forfeit_calls = late_opening_calls @
     [SubmitGuess ''m1'' ''alice''
        \<lparr>roundNumber = 1, guess = ''Dynamite'', timestamp = 10000000\<rparr> 10000000,
      SubmitGuess ''m1'' ''bob''
        \<lparr>roundNumber = 1, guess = ''Butter'', timestamp = 10005000\<rparr> 10005000,
      RemovePlayer ''alice'']"

text \<open>
  Alice leaves \<open>''m1''\<close> during its first round, enqueues again and is paired with Carol
  in \<open>''m2''\<close>, whose first round starts at 5000000.
\<close>

definition rejoin_calls :: "call list" where
  "rejoin_calls = forfeited_calls @
     [Enqueue alice ''m2'' songDatabase,
      Enqueue (guest ''carol'') ''m2'' songDatabase,
      StartMatch ''m2'' 5000000]"

section \<open>Lemmas\<close>

subsection \<open>The points of a correct guess\<close>

lemma points_alt:
  "points ts start limit =
     \<lfloor>100 + max 0 (rat_of_int limit - rat_of_int (ts - or0 start) / 1000) * 10 + 1 / 2\<rfloor>"
  by (simp add: points_def js_round_def Let_def)

lemma points_ge_100: "100 \<le> points ts start limit"
proof -
  define b where "b = max 0 (rat_of_int limit - rat_of_int (ts - or0 start) / 1000)"
  have "0 \<le> b" by (simp add: b_def)
  then have "rat_of_int 100 \<le> 100 + b * 10 + 1 / 2" by simp
  then show ?thesis unfolding points_alt b_def [symmetric] by (simp only: le_floor_iff)
qed

lemma points_mono:
  assumes "ts1 \<le> ts2"
  shows "points ts2 start limit \<le> points ts1 start limit"
proof -
  have "rat_of_int (ts1 - or0 start) / 1000 \<le> rat_of_int (ts2 - or0 start) / 1000"
    using assms by (simp add: divide_right_mono)
  then have "max 0 (rat_of_int limit - rat_of_int (ts2 - or0 start) / 1000)
      \<le> max 0 (rat_of_int limit - rat_of_int (ts1 - or0 start) / 1000)"
    by (simp add: max_def)
  then show ?thesis unfolding points_alt by (intro floor_mono) simp
qed

lemma points_le_250:
  assumes "or0 start \<le> ts"
  shows "points ts start 15 \<le> 250"
proof -
  define e where "e = rat_of_int (ts - or0 start) / 1000"
  have "0 \<le> e" using assms by (simp add: e_def)
  then have "100 + max 0 (rat_of_int 15 - e) * 10 + 1 / 2 < rat_of_int 250 + 1"
    by (simp add: max_def)
  then show ?thesis unfolding points_alt e_def [symmetric] by (simp only: floor_le_iff)
qed

lemma points_ge_150:
  assumes "ts - or0 start \<le> 10000"
  shows "150 \<le> points ts start 15"
proof -
  define e where "e = rat_of_int (ts - or0 start) / 1000"
  have "rat_of_int (ts - or0 start) \<le> rat_of_int 10000" using assms by (simp only: of_int_le_iff)
  then have "e \<le> 10" by (simp add: e_def)
  then have "rat_of_int 150 \<le> 100 + max 0 (rat_of_int 15 - e) * 10 + 1 / 2"
    by (simp add: max_def)
  then show ?thesis unfolding points_alt e_def [symmetric] by (simp only: le_floor_iff)
qed

subsection \<open>Association lists, and what every history preserves\<close>

lemma map_of_update_same: "map_of (AList.update k v al) k = Some v"
  by (simp add: AList.update_conv')

lemma set_update: "set (AList.update k v al) \<subseteq> insert (k, v) (set al)"
  by (induction al) auto

lemma update_pres:
  assumes "\<forall>e \<in> set al. P (snd e)" and "P v"
  shows "\<forall>e \<in> set (AList.update k v al). P (snd e)"
proof
  fix e assume "e \<in> set (AList.update k v al)"
  then have "e = (k, v) \<or> e \<in> set al" using set_update [of k v al] by auto
  then show "P (snd e)" using assms by auto
qed

lemma set_delete: "set (AList.delete k al) \<subseteq> set al"
  by (auto simp: AList.delete_eq)

lemma createMatch_pair:
  assumes "waitingPlayers s = p1 # p2 # rest"
  shows "createMatch uuid shuffled s =
    (Inr uuid,
     s\<lparr>waitingPlayers := rest,
       matches := AList.update uuid
          \<lparr>match_id = uuid, player1Id = player_id p1, player2Id = player_id p2,
           currentRound = 0, rounds = generateRounds shuffled 5,
           scores = (Map.empty(player_id p1 \<mapsto> Num 0))(player_id p2 \<mapsto> Num 0),
           state = waiting, roundStartTime = None, playerAnswers = Map.empty,
           roundTimeLimit = 15\<rparr> (matches s),
       playerMatches := ((playerMatches s)(player_id p1 \<mapsto> uuid))(player_id p2 \<mapsto> uuid)\<rparr>)"
  using assms by (simp add: createMatch_def Let_def)

lemma createMatch_inv:
  assumes inv: "queue_inv s" and ws: "waitingPlayers s = p1 # p2 # rest"
  shows "queue_inv (snd (createMatch uuid shuffled s))"
proof -
  have dd: "distinct (map player_id (p1 # p2 # rest))"
    using inv ws by (simp add: queue_inv_def)
  have d1: "player_id p1 \<noteq> player_id p2"
    using dd by simp
  have "player_id p1 \<notin> player_id ` set rest"
    using dd by simp
  then have d2: "\<forall>q \<in> set rest. player_id q \<noteq> player_id p1"
    by (metis imageI)
  have "player_id p2 \<notin> player_id ` set rest"
    using dd by simp
  then have d3: "\<forall>q \<in> set rest. player_id q \<noteq> player_id p2"
    by (metis imageI)
  have d4: "distinct (map player_id rest)"
    using dd by simp
  have un: "\<forall>p \<in> set rest. playerMatches s (player_id p) = None"
    using inv ws by (simp add: queue_inv_def)
  have ms: "\<forall>e \<in> set (matches s). player1Id (snd e) \<noteq> player2Id (snd e)"
    and dk: "distinct (map fst (matches s))"
    using inv by (simp_all add: queue_inv_def)
  let ?m = "\<lparr>match_id = uuid, player1Id = player_id p1, player2Id = player_id p2,
           currentRound = 0, rounds = generateRounds shuffled 5,
           scores = (Map.empty(player_id p1 \<mapsto> Num 0))(player_id p2 \<mapsto> Num 0),
           state = waiting, roundStartTime = None, playerAnswers = Map.empty,
           roundTimeLimit = 15\<rparr>"
  have a: "\<forall>e \<in> set (AList.update uuid ?m (matches s)). player1Id (snd e) \<noteq> player2Id (snd e)"
    by (rule update_pres [OF ms]) (simp add: d1)
  have b: "distinct (map fst (AList.update uuid ?m (matches s)))"
    using dk by (rule AList.distinct_update)
  have c: "\<forall>p \<in> set rest.
      (((playerMatches s)(player_id p1 \<mapsto> uuid))(player_id p2 \<mapsto> uuid)) (player_id p) = None"
    using un d2 d3 by simp
  show ?thesis
    unfolding createMatch_pair [OF ws] queue_inv_def
    using a b c d4 by simp
qed

lemma two_heads: "2 \<le> length xs \<Longrightarrow> \<exists>a b r. xs = a # b # r"
  by (cases xs; cases "tl xs") simp_all

lemma addPlayerToQueue_inv:
  assumes inv: "queue_inv s"
  shows "queue_inv (snd (addPlayerToQueue p uuid shuffled s))"
proof (cases "playerMatches s (player_id p) \<noteq> None")
  case True
  then show ?thesis using inv by (simp add: addPlayerToQueue_def)
next
  case False
  let ?ws = "filter (\<lambda>q. player_id q \<noteq> player_id p) (waitingPlayers s) @ [p]"
  let ?s2 = "s\<lparr>waitingPlayers := ?ws\<rparr>"
  have "distinct (map player_id (filter (\<lambda>q. player_id q \<noteq> player_id p) (waitingPlayers s)))"
    using inv by (simp add: queue_inv_def distinct_map_filter)
  then have "distinct (map player_id ?ws)" by auto
  moreover have "\<forall>q \<in> set ?ws. playerMatches s (player_id q) = None"
    using inv False by (auto simp: queue_inv_def)
  ultimately have inv2: "queue_inv ?s2"
    using inv by (simp add: queue_inv_def)
  show ?thesis
  proof (cases "2 \<le> length ?ws")
    case short: False
    then show ?thesis using False inv2 by (simp add: addPlayerToQueue_def Let_def)
  next
    case True
    then obtain p1 p2 rest where ws: "?ws = p1 # p2 # rest"
      using two_heads by blast
    then have ws2: "waitingPlayers ?s2 = p1 # p2 # rest" by simp
    have "queue_inv (snd (createMatch uuid shuffled ?s2))"
      by (rule createMatch_inv [OF inv2 ws2])
    moreover have "snd (addPlayerToQueue p uuid shuffled s) = snd (createMatch uuid shuffled ?s2)"
      using False True by (simp add: addPlayerToQueue_def Let_def createMatch_pair [OF ws2])
    ultimately show ?thesis by simp
  qed
qed


lemma match_update_inv:
  assumes inv: "queue_inv s" and m: "map_of (matches s) k = Some m"
    and same: "player1Id m' = player1Id m" "player2Id m' = player2Id m"
  shows "queue_inv (s\<lparr>matches := AList.update k m' (matches s)\<rparr>)"
proof -
  have ms: "\<forall>e \<in> set (matches s). player1Id (snd e) \<noteq> player2Id (snd e)"
    and dk: "distinct (map fst (matches s))"
    using inv by (simp_all add: queue_inv_def)
  have "(k, m) \<in> set (matches s)" using m by (rule map_of_SomeD)
  then have "player1Id m \<noteq> player2Id m" using ms by force
  then have "player1Id m' \<noteq> player2Id m'" using same by simp
  then have a: "\<forall>e \<in> set (AList.update k m' (matches s)). player1Id (snd e) \<noteq> player2Id (snd e)"
    by (rule update_pres [OF ms])
  have b: "distinct (map fst (AList.update k m' (matches s)))"
    using dk by (rule AList.distinct_update)
  show ?thesis using inv a b by (simp add: queue_inv_def)
qed

lemma startMatch_inv:
  assumes "queue_inv s"
  shows "queue_inv (snd (startMatch matchId now s))"
proof (cases "map_of (matches s) matchId")
  case None
  then show ?thesis using assms by (simp add: startMatch_def)
next
  case (Some m)
  have "queue_inv (s\<lparr>matches := AList.update matchId
          (m\<lparr>state := playing, currentRound := 1, roundStartTime := Some now\<rparr>) (matches s)\<rparr>)"
    by (rule match_update_inv [OF assms Some]) simp_all
  then show ?thesis using Some by (simp add: startMatch_def Let_def)
qed

lemma finishRound_players:
  "finishRound m = Inr (r, m') \<Longrightarrow> player1Id m' = player1Id m \<and> player2Id m' = player2Id m"
  by (auto simp: finishRound_def Let_def split: option.splits if_splits)

lemma submitGuess_accepted:
  assumes "map_of (matches s) matchId = Some m"
    and "state m = playing"
    and "roundNumber g = currentRound m"
    and "round_at (rounds m) (currentRound m) = Some cr"
  shows "submitGuess matchId playerId g now s =
    (if (playerAnswers (scored m cr playerId g) (player1Id m) \<noteq> None
          \<and> playerAnswers (scored m cr playerId g) (player2Id m) \<noteq> None)
        \<or> isRoundTimeUp (scored m cr playerId g) now
     then (case finishRound (scored m cr playerId g) of
             Inl e \<Rightarrow> (Inl e, s\<lparr>matches := AList.update matchId (scored m cr playerId g) (matches s)\<rparr>)
           | Inr (result, m3) \<Rightarrow>
               (Inr (Some result), s\<lparr>matches := AList.update matchId m3 (matches s)\<rparr>))
     else (Inr None, s\<lparr>matches := AList.update matchId (scored m cr playerId g) (matches s)\<rparr>))"
proof (cases "guess g = correctAnswer cr")
  case True
  then show ?thesis using assms
    by (simp add: submitGuess_def scored_def Let_def split: sum.splits prod.splits)
next
  case False
  then show ?thesis using assms
    by (simp add: submitGuess_def scored_def Let_def split: sum.splits prod.splits)
qed

lemma scored_fields:
  "player1Id (scored m cr playerId g) = player1Id m"
  "player2Id (scored m cr playerId g) = player2Id m"
  "currentRound (scored m cr playerId g) = currentRound m"
  "rounds (scored m cr playerId g) = rounds m"
  "state (scored m cr playerId g) = state m"
  "roundStartTime (scored m cr playerId g) = roundStartTime m"
  "roundTimeLimit (scored m cr playerId g) = roundTimeLimit m"
  "playerAnswers (scored m cr playerId g) = (playerAnswers m)(playerId \<mapsto> guess g)"
  by (simp_all add: scored_def Let_def)

lemma submitGuess_frame:
  "snd (submitGuess matchId playerId g now s) = s
   \<or> (\<exists>m m'. map_of (matches s) matchId = Some m
         \<and> snd (submitGuess matchId playerId g now s) = s\<lparr>matches := AList.update matchId m' (matches s)\<rparr>
         \<and> player1Id m' = player1Id m \<and> player2Id m' = player2Id m)"
proof (cases "map_of (matches s) matchId")
  case None
  then show ?thesis by (simp add: submitGuess_def)
next
  case (Some m)
  show ?thesis
  proof (cases "state m \<noteq> playing \<or> roundNumber g \<noteq> currentRound m")
    case True
    then show ?thesis using Some by (auto simp: submitGuess_def)
  next
    case False
    then have pl: "state m = playing" "roundNumber g = currentRound m" by simp_all
    let ?m1 = "m\<lparr>playerAnswers := (playerAnswers m)(playerId \<mapsto> guess g)\<rparr>"
    have "\<exists>m'. snd (submitGuess matchId playerId g now s) = s\<lparr>matches := AList.update matchId m' (matches s)\<rparr>
               \<and> player1Id m' = player1Id m \<and> player2Id m' = player2Id m"
    proof (cases "round_at (rounds m) (currentRound m)")
      case None
      then have "snd (submitGuess matchId playerId g now s) = s\<lparr>matches := AList.update matchId ?m1 (matches s)\<rparr>"
        using Some False by (simp add: submitGuess_def Let_def)
      moreover have "player1Id ?m1 = player1Id m \<and> player2Id ?m1 = player2Id m" by simp
      ultimately show ?thesis by blast
    next
      case cr: (Some cr)
      let ?m2 = "scored m cr playerId g"
      note eq = submitGuess_accepted [OF Some pl cr, of playerId now]
      have p2: "player1Id ?m2 = player1Id m \<and> player2Id ?m2 = player2Id m"
        by (simp add: scored_fields)
      show ?thesis
      proof (cases "finishRound ?m2")
        case (Inl e)
        then have "snd (submitGuess matchId playerId g now s) = s\<lparr>matches := AList.update matchId ?m2 (matches s)\<rparr>"
          unfolding eq by simp
        then show ?thesis using p2 by blast
      next
        case (Inr rm)
        obtain r m3 where rm: "rm = (r, m3)" by (cases rm)
        have "player1Id m3 = player1Id ?m2 \<and> player2Id m3 = player2Id ?m2"
          using finishRound_players Inr rm by blast
        then have p3: "player1Id m3 = player1Id m \<and> player2Id m3 = player2Id m"
          using p2 by simp
        have "snd (submitGuess matchId playerId g now s) = s\<lparr>matches := AList.update matchId m3 (matches s)\<rparr>
            \<or> snd (submitGuess matchId playerId g now s) = s\<lparr>matches := AList.update matchId ?m2 (matches s)\<rparr>"
          unfolding eq using Inr rm by simp
        then show ?thesis using p2 p3 by blast
      qed
    qed
    then show ?thesis using Some by blast
  qed
qed

lemma submitGuess_inv:
  assumes "queue_inv s"
  shows "queue_inv (snd (submitGuess matchId playerId g now s))"
  using submitGuess_frame [of matchId playerId g now s] assms match_update_inv
  by (metis (no_types))


lemma filter_waiting_inv:
  assumes "queue_inv s"
  shows "queue_inv (s\<lparr>waitingPlayers := filter P (waitingPlayers s)\<rparr>)"
  using assms by (simp add: queue_inv_def distinct_map_filter)

lemma unmap_inv:
  assumes "queue_inv s"
  shows "queue_inv (s\<lparr>playerMatches := (playerMatches s)(q := None)\<rparr>)"
  using assms by (simp add: queue_inv_def)

lemma removePlayer_inv:
  assumes "queue_inv s"
  shows "queue_inv (removePlayer playerId s)"
proof -
  let ?s1 = "s\<lparr>waitingPlayers := filter (\<lambda>p. player_id p \<noteq> playerId) (waitingPlayers s)\<rparr>"
  have i1: "queue_inv ?s1" by (rule filter_waiting_inv [OF assms])
  show ?thesis
  proof (cases "playerMatches s playerId")
    case None
    then show ?thesis using i1 by (simp add: removePlayer_def Let_def)
  next
    case (Some matchId)
    show ?thesis
    proof (cases "matchId = []")
      case True
      then show ?thesis using i1 Some by (simp add: removePlayer_def Let_def)
    next
      case ne: False
      let ?s2 = "case map_of (matches ?s1) matchId of
                   None \<Rightarrow> ?s1
                 | Some match \<Rightarrow>
                     if state match \<noteq> finished
                     then ?s1\<lparr>matches := AList.update matchId (match\<lparr>state := finished\<rparr>) (matches ?s1)\<rparr>
                     else ?s1"
      have i2: "queue_inv ?s2"
      proof (cases "map_of (matches ?s1) matchId")
        case None
        then show ?thesis using i1 by simp
      next
        case m: (Some m)
        have "queue_inv (?s1\<lparr>matches := AList.update matchId (m\<lparr>state := finished\<rparr>) (matches ?s1)\<rparr>)"
          by (rule match_update_inv [OF i1 m]) simp_all
        then show ?thesis using i1 m by simp
      qed
      have "removePlayer playerId s = ?s2\<lparr>playerMatches := (playerMatches ?s2)(playerId := None)\<rparr>"
        using Some ne by (simp add: removePlayer_def Let_def)
      then show ?thesis using unmap_inv [OF i2] by simp
    qed
  qed
qed

lemma cleanupEntry_inv:
  assumes "queue_inv s"
  shows "queue_inv (cleanupEntry h e s)"
proof (cases e)
  case (Pair k m)
  have "set (AList.delete k (matches s)) \<subseteq> set (matches s)" by (rule set_delete)
  moreover have "distinct (map fst (AList.delete k (matches s)))"
    using assms by (simp add: queue_inv_def AList.distinct_delete)
  ultimately have "queue_inv (s\<lparr>matches := AList.delete k (matches s),
              playerMatches := ((playerMatches s)(player1Id m := None))(player2Id m := None)\<rparr>)"
    using assms by (auto simp: queue_inv_def)
  then show ?thesis using assms Pair by (simp add: cleanupEntry_def)
qed

lemma fold_cleanupEntry_inv:
  "queue_inv s \<Longrightarrow> queue_inv (fold (cleanupEntry h) es s)"
  by (induction es arbitrary: s) (simp_all add: cleanupEntry_inv)

lemma step_inv: "queue_inv s \<Longrightarrow> queue_inv (step s c)"
  by (cases c)
    (simp_all add: addPlayerToQueue_inv startMatch_inv submitGuess_inv removePlayer_inv
      cleanupFinishedMatches_def fold_cleanupEntry_inv)

lemma foldl_step_inv: "queue_inv s \<Longrightarrow> queue_inv (foldl step s cs)"
  by (induction cs arbitrary: s) (simp_all add: step_inv)

lemma run_inv: "queue_inv (run cs)"
  unfolding run_def by (rule foldl_step_inv) (simp add: queue_inv_def init_def)


subsection \<open>Submitting a guess, enqueueing, sweeping\<close>

lemma isRoundTimeUp_scored: "isRoundTimeUp (scored m cr playerId g) now = isRoundTimeUp m now"
  by (simp add: isRoundTimeUp_def scored_fields split: option.splits)

lemma scored_correct:
  "guess g = correctAnswer cr \<Longrightarrow>
   scores (scored m cr playerId g) =
     (scores m)(playerId \<mapsto> js_add (scores m playerId)
        (points (timestamp g) (roundStartTime m) (roundTimeLimit m)))"
  by (simp add: scored_def Let_def)

lemma scored_incorrect:
  "guess g \<noteq> correctAnswer cr \<Longrightarrow> scores (scored m cr playerId g) = scores m"
  by (simp add: scored_def Let_def)

lemma addPlayerToQueue_unmapped:
  assumes "playerMatches s (player_id p) = None"
    and "ws = filter (\<lambda>q. player_id q \<noteq> player_id p) (waitingPlayers s) @ [p]"
  shows "addPlayerToQueue p uuid shuffled s =
    (if 2 \<le> length ws
     then (case createMatch uuid shuffled (s\<lparr>waitingPlayers := ws\<rparr>) of
             (Inl e, s3) \<Rightarrow> (Inl e, s3)
           | (Inr matchId, s3) \<Rightarrow> (Inr (Some matchId), s3))
     else (Inr None, s\<lparr>waitingPlayers := ws\<rparr>))"
  unfolding assms(2) using assms(1) by (simp add: addPlayerToQueue_def Let_def)

lemma fold_cleanup_waiting:
  "waitingPlayers (fold (cleanupEntry h) es s) = waitingPlayers s"
  by (induction es arbitrary: s) (simp_all add: cleanupEntry_def split: prod.splits)

lemma fold_cleanup_players:
  "playerMatches (fold (cleanupEntry h) es s) p =
     (if \<exists>e \<in> set es. expired h (snd e) \<and> (p = player1Id (snd e) \<or> p = player2Id (snd e))
      then None else playerMatches s p)"
proof (induction es arbitrary: s)
  case Nil
  show ?case by simp
next
  case (Cons e es)
  obtain k m where e: "e = (k, m)" by (cases e)
  show ?case
    unfolding fold_simps Cons.IH
    by (auto simp: e cleanupEntry_def)
qed

lemma fold_cleanup_matches:
  "matches (fold (cleanupEntry h) es s) =
     filter (\<lambda>e. fst e \<notin> set (map fst (filter (\<lambda>x. expired h (snd x)) es))) (matches s)"
proof (induction es arbitrary: s)
  case Nil
  show ?case by simp
next
  case (Cons e es)
  obtain k m where e: "e = (k, m)" by (cases e)
  show ?case
  proof (cases "expired h m")
    case True
    have "matches (cleanupEntry h e s) = filter (\<lambda>x. k \<noteq> fst x) (matches s)"
      using True by (simp add: e cleanupEntry_def AList.delete_eq case_prod_unfold)
    moreover have "set (map fst (filter (\<lambda>x. expired h (snd x)) (e # es)))
        = insert k (set (map fst (filter (\<lambda>x. expired h (snd x)) es)))"
      using True by (simp add: e)
    ultimately show ?thesis
      unfolding fold_simps Cons.IH by (auto intro: filter_cong)
  next
    case False
    have "matches (cleanupEntry h e s) = matches s"
      using False by (simp add: e cleanupEntry_def)
    moreover have "set (map fst (filter (\<lambda>x. expired h (snd x)) (e # es)))
        = set (map fst (filter (\<lambda>x. expired h (snd x)) es))"
      using False by (simp add: e)
    ultimately show ?thesis
      unfolding fold_simps Cons.IH by simp
  qed
qed

lemma filter_expired_keys:
  assumes "distinct (map fst al)"
  shows "filter (\<lambda>e. fst e \<notin> set (map fst (filter (\<lambda>x. expired h (snd x)) al))) al
       = filter (\<lambda>e. \<not> expired h (snd e)) al"
proof (rule filter_cong [OF refl])
  fix e assume e: "e \<in> set al"
  have "fst e \<in> set (map fst (filter (\<lambda>x. expired h (snd x)) al)) \<longleftrightarrow> expired h (snd e)"
  proof
    assume "fst e \<in> set (map fst (filter (\<lambda>x. expired h (snd x)) al))"
    then obtain x where x: "x \<in> set al" "expired h (snd x)" "fst x = fst e" by auto
    have "(fst e, snd x) \<in> set al" using x by (metis prod.collapse)
    moreover have "(fst e, snd e) \<in> set al" using e by simp
    ultimately have "snd x = snd e" using assms eq_key_imp_eq_value by metis
    then show "expired h (snd e)" using x by simp
  next
    assume "expired h (snd e)"
    then show "fst e \<in> set (map fst (filter (\<lambda>x. expired h (snd x)) al))" using e by auto
  qed
  then show "(fst e \<notin> set (map fst (filter (\<lambda>x. expired h (snd x)) al))) = (\<not> expired h (snd e))"
    by simp
qed


lemma run_opening_calls:
  "run opening_calls =
     \<lparr>matches = [(''m1'', opening_match)], waitingPlayers = [],
      playerMatches = [''alice'' \<mapsto> ''m1'', ''bob'' \<mapsto> ''m1'']\<rparr>"
  by (simp add: run_def opening_calls_def pairing_calls_def alice_def bob_def init_def
      addPlayerToQueue_def createMatch_def startMatch_def generateRounds_def songDatabase_def
      opening_match_def Let_def)

section \<open>The claims\<close>

subsection \<open>C1: the lifecycle only moves forward\<close>

text \<open>
  C1 says that over every sequence of calls the state of a match only moves along
  waiting, playing, finished and that its current round never decreases. The code
  breaks both, since \<^verbatim>\<open>startMatch\<close> resets any match it is given. After the first
  round is resolved the match is at round 2; the call the server makes to start the next
  round puts it back to round 1. When Alice has left, the match is finished; the same
  call puts it back to playing.
\<close>

theorem C1_startMatch_rewinds:
  "map_option state (map_of (matches (run round1_calls)) ''m1'') = Some playing
   \<and> map_option currentRound (map_of (matches (run round1_calls)) ''m1'') = Some 2
   \<and> map_option currentRound
        (map_of (matches (run (round1_calls @ [StartMatch ''m1'' 1008000]))) ''m1'') = Some 1
   \<and> map_option state
        (map_of (matches (run (round1_calls @ [RemovePlayer ''alice'']))) ''m1'') = Some finished
   \<and> map_option state
        (map_of (matches (run (round1_calls @ [RemovePlayer ''alice'', StartMatch ''m1'' 1008000])))
           ''m1'') = Some playing"
  by code_simp

subsection \<open>C2: starting the next round\<close>




subsection \<open>C3: resolving a round\<close>




subsection \<open>C4: the points of a correct answer\<close>

text \<open>
  C4 says that a correct answer adds round(100 + max(0, timeLimit - elapsed) * 10) points,
  with elapsed = max(0, answeredAt - anchor), so between 100 and 250. The code does not
  bound the elapsed time below: a correct answer stamped one second before the anchor,
  in a match with the time limit 15, is worth 260 points, and Alice's score goes from 0
  to 260.
\<close>

theorem C4_points_above_maximum:
  "points 999000 (Some 1000000) 15 = 260
   \<and> map_option roundStartTime (map_of (matches (run opening_calls)) ''m1'') = Some (Some 1000000)
   \<and> map_option roundTimeLimit (map_of (matches (run opening_calls)) ''m1'') = Some 15
   \<and> scores (the (map_of (matches (run opening_calls)) ''m1'')) ''alice'' = Some (Num 0)
   \<and> scores (the (map_of (matches (run (opening_calls @
          [SubmitGuess ''m1'' ''alice''
             \<lparr>roundNumber = 1, guess = ''Dynamite'', timestamp = 999000\<rparr> 1000000]))) ''m1''))
        ''alice'' = Some (Num 260)"
  by code_simp

subsection \<open>C5: pairing in arrival order\<close>

text \<open>
  C5: in every state that a sequence of calls reaches, every match has two different
  players; and when a player without a mapping is enqueued, the waiting list becomes the
  other waiters followed by the player: with fewer than two entries nothing else happens;
  with two or more the call returns the new match, whose players are the first and the
  second of that list, which are different, and exactly these two leave the list.
\<close>

theorem C5_fifo_pairing:
  assumes s: "s = run cs"
    and un: "playerMatches s (player_id p) = None"
    and ws: "ws = filter (\<lambda>q. player_id q \<noteq> player_id p) (waitingPlayers s) @ [p]"
  shows "(\<forall>e \<in> set (matches s). player1Id (snd e) \<noteq> player2Id (snd e))
     \<and> (length ws < 2 \<longrightarrow>
          addPlayerToQueue p uuid shuffled s = (Inr None, s\<lparr>waitingPlayers := ws\<rparr>))
     \<and> (2 \<le> length ws \<longrightarrow>
          (\<exists>m s'. addPlayerToQueue p uuid shuffled s = (Inr (Some uuid), s')
             \<and> map_of (matches s') uuid = Some m
             \<and> player1Id m = player_id (ws ! 0)
             \<and> player2Id m = player_id (ws ! 1)
             \<and> player_id (ws ! 0) \<noteq> player_id (ws ! 1)
             \<and> waitingPlayers s' = drop 2 ws
             \<and> length (waitingPlayers s') + 2 = length ws
             \<and> (\<forall>e \<in> set (matches s'). player1Id (snd e) \<noteq> player2Id (snd e))))"
proof (intro conjI impI)
  have inv: "queue_inv s" unfolding s by (rule run_inv)
  then show "\<forall>e \<in> set (matches s). player1Id (snd e) \<noteq> player2Id (snd e)"
    by (simp add: queue_inv_def)
  let ?s2 = "s\<lparr>waitingPlayers := ws\<rparr>"
  {
    assume "length ws < 2"
    then show "addPlayerToQueue p uuid shuffled s = (Inr None, ?s2)"
      by (simp add: addPlayerToQueue_unmapped [OF un ws])
  }
  {
    assume two: "2 \<le> length ws"
    then obtain p1 p2 rest where c: "ws = p1 # p2 # rest"
      using two_heads by blast
    then have ws2: "waitingPlayers ?s2 = p1 # p2 # rest" by simp
    have e: "addPlayerToQueue p uuid shuffled s =
        (Inr (Some uuid), snd (createMatch uuid shuffled ?s2))"
      using two by (simp add: addPlayerToQueue_unmapped [OF un ws] createMatch_pair [OF ws2])
    have inv': "queue_inv (snd (addPlayerToQueue p uuid shuffled s))"
      by (rule addPlayerToQueue_inv [OF inv])
    then have a: "\<forall>e \<in> set (matches (snd (createMatch uuid shuffled ?s2))).
        player1Id (snd e) \<noteq> player2Id (snd e)"
      unfolding e by (simp add: queue_inv_def)
    have "distinct (map player_id (filter (\<lambda>q. player_id q \<noteq> player_id p) (waitingPlayers s)))"
      using inv by (simp add: queue_inv_def distinct_map_filter)
    then have "distinct (map player_id ws)" unfolding ws by auto
    then have d: "player_id p1 \<noteq> player_id p2" unfolding c by simp
    have b: "\<exists>m. map_of (matches (snd (createMatch uuid shuffled ?s2))) uuid = Some m
             \<and> player1Id m = player_id p1 \<and> player2Id m = player_id p2"
      by (simp add: createMatch_pair [OF ws2] map_of_update_same)
    have w: "waitingPlayers (snd (createMatch uuid shuffled ?s2)) = rest"
      by (simp add: createMatch_pair [OF ws2])
    show "\<exists>m s'. addPlayerToQueue p uuid shuffled s = (Inr (Some uuid), s')
             \<and> map_of (matches s') uuid = Some m
             \<and> player1Id m = player_id (ws ! 0)
             \<and> player2Id m = player_id (ws ! 1)
             \<and> player_id (ws ! 0) \<noteq> player_id (ws ! 1)
             \<and> waitingPlayers s' = drop 2 ws
             \<and> length (waitingPlayers s') + 2 = length ws
             \<and> (\<forall>e \<in> set (matches s'). player1Id (snd e) \<noteq> player2Id (snd e))"
      using e a b d w unfolding c by auto
  }
qed

theorem C5_fifo_pairing_witness:
  "playerMatches (run [Enqueue alice ''m0'' songDatabase]) (player_id bob) = None
   \<and> (\<exists>m s'. addPlayerToQueue bob ''m1'' songDatabase (run [Enqueue alice ''m0'' songDatabase])
            = (Inr (Some ''m1''), s')
         \<and> map_of (matches s') ''m1'' = Some m
         \<and> player1Id m = ''alice'' \<and> player2Id m = ''bob''
         \<and> waitingPlayers s' = [])"
proof -
  let ?s = "run [Enqueue alice ''m0'' songDatabase]"
  have un: "playerMatches ?s (player_id bob) = None"
    by (simp add: run_def init_def addPlayerToQueue_def alice_def bob_def Let_def)
  have w: "waitingPlayers ?s = [alice]"
    by (simp add: run_def init_def addPlayerToQueue_def alice_def Let_def)
  have ws: "[alice, bob] = filter (\<lambda>q. player_id q \<noteq> player_id bob) (waitingPlayers ?s) @ [bob]"
    unfolding w by (simp add: alice_def bob_def)
  have ids: "player_id alice = ''alice''" "player_id bob = ''bob''"
    by (simp_all add: alice_def bob_def)
  show ?thesis
    using C5_fifo_pairing [OF refl un ws, of "''m1''" songDatabase] un ids by auto
qed


subsection \<open>C6: the forced timeout\<close>




subsection \<open>C7: enqueueing a player who has a mapping\<close>

text \<open>
  C7 as stated fails: the call is rejected whenever the player has a mapping, also one to
  a finished match. After Alice has left, the match of Bob is finished and Bob is still
  mapped to it; his call to enqueue returns nothing and changes nothing.
\<close>

theorem C7_counterexample:
  "playerMatches (run forfeited_calls) ''bob'' = Some ''m1''
   \<and> map_option state (map_of (matches (run forfeited_calls)) ''m1'') = Some finished
   \<and> addPlayerToQueue bob ''m2'' songDatabase (run forfeited_calls)
       = (Inr None, run forfeited_calls)"
proof -
  have a: "playerMatches (run forfeited_calls) ''bob'' = Some ''m1''" by code_simp
  have b: "map_option state (map_of (matches (run forfeited_calls)) ''m1'') = Some finished"
    by code_simp
  have c: "addPlayerToQueue bob ''m2'' songDatabase (run forfeited_calls)
       = (Inr None, run forfeited_calls)"
    using a by (simp add: addPlayerToQueue_def bob_def)
  show ?thesis using a b c by blast
qed

text \<open>
  C7 as amended: a player who has a mapping, to a match in any state, is rejected: the call
  returns nothing and changes nothing. A player who has no mapping is not rejected: the
  waiting list becomes the other waiters followed by the player, less its first two
  entries if it has two or more, and the call returns nothing exactly when that list has
  fewer than two entries.
\<close>

theorem C7_enqueue_amended:
  "(playerMatches s (player_id p) \<noteq> None \<longrightarrow> addPlayerToQueue p uuid shuffled s = (Inr None, s))
   \<and> (playerMatches s (player_id p) = None \<longrightarrow>
        (let ws = filter (\<lambda>q. player_id q \<noteq> player_id p) (waitingPlayers s) @ [p]
         in waitingPlayers (snd (addPlayerToQueue p uuid shuffled s))
              = (if 2 \<le> length ws then drop 2 ws else ws)
            \<and> (fst (addPlayerToQueue p uuid shuffled s) = Inr None \<longleftrightarrow> length ws < 2)))"
proof (intro conjI impI)
  assume "playerMatches s (player_id p) \<noteq> None"
  then show "addPlayerToQueue p uuid shuffled s = (Inr None, s)"
    by (simp add: addPlayerToQueue_def)
next
  assume un: "playerMatches s (player_id p) = None"
  let ?ws = "filter (\<lambda>q. player_id q \<noteq> player_id p) (waitingPlayers s) @ [p]"
  let ?s2 = "s\<lparr>waitingPlayers := ?ws\<rparr>"
  show "let ws = ?ws
         in waitingPlayers (snd (addPlayerToQueue p uuid shuffled s))
              = (if 2 \<le> length ws then drop 2 ws else ws)
            \<and> (fst (addPlayerToQueue p uuid shuffled s) = Inr None \<longleftrightarrow> length ws < 2)"
  proof (cases "2 \<le> length ?ws")
    case False
    then have "filter (\<lambda>q. player_id q \<noteq> player_id p) (waitingPlayers s) = []"
      by (simp add: Suc_le_eq)
    then show ?thesis using un by (simp add: addPlayerToQueue_def Let_def)
  next
    case True
    then obtain p1 p2 rest where ws: "?ws = p1 # p2 # rest"
      using two_heads by blast
    then have ws2: "waitingPlayers ?s2 = p1 # p2 # rest" by simp
    have "addPlayerToQueue p uuid shuffled s =
        (Inr (Some uuid), snd (createMatch uuid shuffled ?s2))"
      using un True by (simp add: addPlayerToQueue_def Let_def createMatch_pair [OF ws2])
    moreover have "waitingPlayers (snd (createMatch uuid shuffled ?s2)) = rest"
      by (simp add: createMatch_pair [OF ws2])
    ultimately show ?thesis using True ws by (simp add: Let_def)
  qed
qed

theorem C7_enqueue_amended_witness:
  "playerMatches (run opening_calls) (player_id alice) \<noteq> None
   \<and> addPlayerToQueue alice ''m2'' songDatabase (run opening_calls) = (Inr None, run opening_calls)
   \<and> playerMatches init (player_id alice) = None
   \<and> waitingPlayers (snd (addPlayerToQueue alice ''m2'' songDatabase init)) = [alice]
   \<and> fst (addPlayerToQueue alice ''m2'' songDatabase init) = Inr None"
proof -
  have a: "playerMatches (run opening_calls) (player_id alice) \<noteq> None"
    by (simp add: run_opening_calls alice_def)
  have b: "playerMatches init (player_id alice) = None"
    by (simp add: init_def)
  have c: "waitingPlayers init = []" by (simp add: init_def)
  have d: "addPlayerToQueue alice ''m2'' songDatabase (run opening_calls)
      = (Inr None, run opening_calls)"
    using C7_enqueue_amended [of "run opening_calls" alice "''m2''" songDatabase] a by blast
  have e: "waitingPlayers (snd (addPlayerToQueue alice ''m2'' songDatabase init)) = [alice]
      \<and> fst (addPlayerToQueue alice ''m2'' songDatabase init) = Inr None"
    using C7_enqueue_amended [of init alice "''m2''" songDatabase] b
    by (simp add: c Let_def)
  show ?thesis using a b d e by blast
qed

subsection \<open>C8: no validation at match construction\<close>

text \<open>
  C8 as stated fails: \<^verbatim>\<open>createMatch\<close> validates nothing. Given a waiting list headed by
  Alice, who is mapped to a match being played, it does not fail: it returns the new
  match and maps Alice to it.
\<close>

theorem C8_counterexample:
  "playerMatches overlapping ''alice'' = Some ''m1''
   \<and> map_option state (map_of (matches overlapping) ''m1'') = Some playing
   \<and> map player_id (waitingPlayers overlapping) = [''alice'', ''bob'']
   \<and> fst (createMatch ''m2'' songDatabase overlapping) = Inr ''m2''
   \<and> playerMatches (snd (createMatch ''m2'' songDatabase overlapping)) ''alice'' = Some ''m2''"
  by code_simp

text \<open>
  C8 as amended: given two or more waiting players, \<^verbatim>\<open>createMatch\<close> never fails; it
  returns the new identifier, maps the first two waiting players to it (whatever they were
  mapped to), leaves every other mapping as it was, removes the two from the waiting list
  and stores the new match, waiting at round 0, with them as its players. It is enqueue
  alone that keeps mapped players out: in every state that a sequence of calls reaches,
  no waiting player has a mapping.
\<close>

theorem C8_createMatch_amended:
  "(\<forall>p1 p2 rest. waitingPlayers s = p1 # p2 # rest \<longrightarrow>
      (\<exists>s' m. createMatch uuid shuffled s = (Inr uuid, s')
         \<and> playerMatches s' (player_id p1) = Some uuid
         \<and> playerMatches s' (player_id p2) = Some uuid
         \<and> (\<forall>q. q \<noteq> player_id p1 \<and> q \<noteq> player_id p2
                \<longrightarrow> playerMatches s' q = playerMatches s q)
         \<and> waitingPlayers s' = rest
         \<and> map_of (matches s') uuid = Some m
         \<and> player1Id m = player_id p1 \<and> player2Id m = player_id p2
         \<and> state m = waiting \<and> currentRound m = 0))
   \<and> (\<forall>p \<in> set (waitingPlayers (run cs)). playerMatches (run cs) (player_id p) = None)"
proof (intro conjI allI impI)
  fix p1 p2 rest
  assume ws: "waitingPlayers s = p1 # p2 # rest"
  show "\<exists>s' m. createMatch uuid shuffled s = (Inr uuid, s')
         \<and> playerMatches s' (player_id p1) = Some uuid
         \<and> playerMatches s' (player_id p2) = Some uuid
         \<and> (\<forall>q. q \<noteq> player_id p1 \<and> q \<noteq> player_id p2
                \<longrightarrow> playerMatches s' q = playerMatches s q)
         \<and> waitingPlayers s' = rest
         \<and> map_of (matches s') uuid = Some m
         \<and> player1Id m = player_id p1 \<and> player2Id m = player_id p2
         \<and> state m = waiting \<and> currentRound m = 0"
    by (simp add: createMatch_pair [OF ws] map_of_update_same)
next
  have "queue_inv (run cs)" by (rule run_inv)
  then show "\<forall>p \<in> set (waitingPlayers (run cs)). playerMatches (run cs) (player_id p) = None"
    by (simp add: queue_inv_def)
qed

theorem C8_createMatch_amended_witness:
  "waitingPlayers (init\<lparr>waitingPlayers := [alice, bob]\<rparr>) = alice # bob # []
   \<and> (\<exists>s' m. createMatch ''m1'' songDatabase (init\<lparr>waitingPlayers := [alice, bob]\<rparr>)
           = (Inr ''m1'', s')
        \<and> playerMatches s' ''alice'' = Some ''m1''
        \<and> playerMatches s' ''bob'' = Some ''m1''
        \<and> waitingPlayers s' = []
        \<and> map_of (matches s') ''m1'' = Some m
        \<and> player1Id m = ''alice'' \<and> player2Id m = ''bob''
        \<and> state m = waiting \<and> currentRound m = 0)
   \<and> alice \<in> set (waitingPlayers (run [Enqueue alice ''m0'' songDatabase]))
   \<and> playerMatches (run [Enqueue alice ''m0'' songDatabase]) (player_id alice) = None"
proof -
  let ?s = "init\<lparr>waitingPlayers := [alice, bob]\<rparr>"
  let ?t = "run [Enqueue alice ''m0'' songDatabase]"
  have a: "waitingPlayers ?s = alice # bob # []" by simp
  have ids: "player_id alice = ''alice''" "player_id bob = ''bob''"
    by (simp_all add: alice_def bob_def)
  have b: "\<exists>s' m. createMatch ''m1'' songDatabase ?s = (Inr ''m1'', s')
        \<and> playerMatches s' ''alice'' = Some ''m1''
        \<and> playerMatches s' ''bob'' = Some ''m1''
        \<and> waitingPlayers s' = []
        \<and> map_of (matches s') ''m1'' = Some m
        \<and> player1Id m = ''alice'' \<and> player2Id m = ''bob''
        \<and> state m = waiting \<and> currentRound m = 0"
    using C8_createMatch_amended [of ?s "''m1''" songDatabase "[]"] a
    unfolding ids [symmetric] by blast
  have c: "alice \<in> set (waitingPlayers ?t)"
    by (simp add: run_def init_def addPlayerToQueue_def alice_def Let_def)
  have d: "playerMatches ?t (player_id alice) = None"
    using C8_createMatch_amended [of ?s "''m1''" songDatabase "[Enqueue alice ''m0'' songDatabase]"] c
    by blast
  show ?thesis using a b c d by blast
qed

subsection \<open>C9: sweeping finished matches\<close>

text \<open>
  C9 as stated fails: the sweep does not go by the anchor a match last recorded but by
  the anchor it has now, read as 0 when unset, and \<^verbatim>\<open>finishRound\<close> unsets the anchor
  between rounds. The first round of \<open>''m1''\<close> started at 10000000 and was resolved; Alice
  left in the pause, so the match is finished with no anchor. A sweep at 10006000, six
  seconds after the only anchor the match ever had, deletes it.
\<close>

theorem C9_counterexample:
  "map_option roundStartTime (map_of (matches (run late_opening_calls)) ''m1'')
     = Some (Some 10000000)
   \<and> map_option state (map_of (matches (run pause_forfeit_calls)) ''m1'') = Some finished
   \<and> map_option roundStartTime (map_of (matches (run pause_forfeit_calls)) ''m1'') = Some None
   \<and> (10006000 :: int) - 10000000 < 3600000
   \<and> map fst (matches (run pause_forfeit_calls)) = [''m1'']
   \<and> map fst (matches (cleanupFinishedMatches 10006000 (run pause_forfeit_calls))) = []"
  by code_simp

text \<open>
  C9 as amended: the sweep, run when the clock reads \<open>now\<close>, deletes exactly the matches
  that are finished and whose present anchor, read as 0 when unset, is more than one hour
  old; every other match stays in the table, unchanged and in its place. For every match
  it deletes, the mapping of either of its players to that match is removed; the mapping
  of a player of no deleted match is left as it was; the waiting list is left alone. A
  finished match with no anchor is deleted by any sweep run later than one hour after
  the epoch of the clock.
\<close>

theorem C9_sweep_amended:
  assumes "distinct (map fst (matches s))"
  shows "matches (cleanupFinishedMatches now s)
           = filter (\<lambda>e. \<not> expired (now - 3600000) (snd e)) (matches s)
       \<and> (\<forall>e \<in> set (matches s). expired (now - 3600000) (snd e) \<longrightarrow>
             (\<forall>p. (p = player1Id (snd e) \<or> p = player2Id (snd e))
                    \<and> playerMatches s p = Some (fst e)
                  \<longrightarrow> playerMatches (cleanupFinishedMatches now s) p = None))
       \<and> (\<forall>p. (\<forall>e \<in> set (matches s). expired (now - 3600000) (snd e)
                    \<longrightarrow> p \<noteq> player1Id (snd e) \<and> p \<noteq> player2Id (snd e))
              \<longrightarrow> playerMatches (cleanupFinishedMatches now s) p = playerMatches s p)
       \<and> waitingPlayers (cleanupFinishedMatches now s) = waitingPlayers s
       \<and> (\<forall>m. expired (now - 3600000) m \<longleftrightarrow>
              state m = finished \<and> (case roundStartTime m of None \<Rightarrow> 0 | Some t \<Rightarrow> t) < now - 3600000)
       \<and> (\<forall>m. state m = finished \<and> roundStartTime m = None \<and> 3600000 < now
              \<longrightarrow> expired (now - 3600000) m)"
proof -
  have h: "now - 60 * 60 * 1000 = now - 3600000" by simp
  have pm: "\<And>p. playerMatches (cleanupFinishedMatches now s) p =
             (if \<exists>e \<in> set (matches s). expired (now - 3600000) (snd e)
                    \<and> (p = player1Id (snd e) \<or> p = player2Id (snd e))
              then None else playerMatches s p)"
    unfolding cleanupFinishedMatches_def Let_def h fold_cleanup_players by simp
  have a: "matches (cleanupFinishedMatches now s)
           = filter (\<lambda>e. \<not> expired (now - 3600000) (snd e)) (matches s)"
    unfolding cleanupFinishedMatches_def Let_def h fold_cleanup_matches
    by (rule filter_expired_keys [OF assms])
  have b: "\<forall>e \<in> set (matches s). expired (now - 3600000) (snd e) \<longrightarrow>
             (\<forall>p. (p = player1Id (snd e) \<or> p = player2Id (snd e))
                    \<and> playerMatches s p = Some (fst e)
                  \<longrightarrow> playerMatches (cleanupFinishedMatches now s) p = None)"
  proof (intro ballI impI allI)
    fix e p
    assume "e \<in> set (matches s)" "expired (now - 3600000) (snd e)"
      "(p = player1Id (snd e) \<or> p = player2Id (snd e)) \<and> playerMatches s p = Some (fst e)"
    then have "\<exists>e \<in> set (matches s). expired (now - 3600000) (snd e)
                    \<and> (p = player1Id (snd e) \<or> p = player2Id (snd e))"
      by blast
    then show "playerMatches (cleanupFinishedMatches now s) p = None"
      by (simp only: pm if_True)
  qed
  have c: "\<forall>p. (\<forall>e \<in> set (matches s). expired (now - 3600000) (snd e)
                    \<longrightarrow> p \<noteq> player1Id (snd e) \<and> p \<noteq> player2Id (snd e))
              \<longrightarrow> playerMatches (cleanupFinishedMatches now s) p = playerMatches s p"
  proof (intro allI impI)
    fix p
    assume "\<forall>e \<in> set (matches s). expired (now - 3600000) (snd e)
                    \<longrightarrow> p \<noteq> player1Id (snd e) \<and> p \<noteq> player2Id (snd e)"
    then have "\<not> (\<exists>e \<in> set (matches s). expired (now - 3600000) (snd e)
                    \<and> (p = player1Id (snd e) \<or> p = player2Id (snd e)))"
      by blast
    then show "playerMatches (cleanupFinishedMatches now s) p = playerMatches s p"
      by (simp only: pm if_False)
  qed
  have d: "waitingPlayers (cleanupFinishedMatches now s) = waitingPlayers s"
    unfolding cleanupFinishedMatches_def Let_def by (rule fold_cleanup_waiting)
  have e: "\<forall>m. expired (now - 3600000) m \<longleftrightarrow>
              state m = finished \<and> (case roundStartTime m of None \<Rightarrow> 0 | Some t \<Rightarrow> t) < now - 3600000"
    by (simp add: expired_def or0_def)
  have f: "\<forall>m. state m = finished \<and> roundStartTime m = None \<and> 3600000 < now
              \<longrightarrow> expired (now - 3600000) m"
    by (simp add: expired_def or0_def)
  show ?thesis using a b c d e f by blast
qed

theorem C9_sweep_amended_witness:
  "distinct (map fst (matches (run sweep_calls)))
   \<and> map fst (matches (run sweep_calls)) = [''m1'', ''m2'', ''m3'']
   \<and> map (state \<circ> snd) (matches (run sweep_calls)) = [finished, finished, waiting]
   \<and> map (roundStartTime \<circ> snd) (matches (run sweep_calls)) = [None, Some 5000000, None]
   \<and> map fst (matches (cleanupFinishedMatches 6000000 (run sweep_calls))) = [''m2'', ''m3'']
   \<and> playerMatches (run sweep_calls) ''bob'' = Some ''m1''
   \<and> playerMatches (cleanupFinishedMatches 6000000 (run sweep_calls)) ''bob'' = None
   \<and> playerMatches (cleanupFinishedMatches 6000000 (run sweep_calls)) ''dave'' = Some ''m2''
   \<and> playerMatches (cleanupFinishedMatches 6000000 (run sweep_calls)) ''erin'' = Some ''m3''"
proof -
  let ?s = "run sweep_calls"
  have a: "distinct (map fst (matches ?s))" by code_simp
  have b: "map fst (matches ?s) = [''m1'', ''m2'', ''m3'']" by code_simp
  have c: "map (state \<circ> snd) (matches ?s) = [finished, finished, waiting]" by code_simp
  have d: "map (roundStartTime \<circ> snd) (matches ?s) = [None, Some 5000000, None]" by code_simp
  have e: "map fst (filter (\<lambda>e. \<not> expired (6000000 - 3600000) (snd e)) (matches ?s))
      = [''m2'', ''m3'']" by code_simp
  have f: "playerMatches ?s ''bob'' = Some ''m1''" "playerMatches ?s ''dave'' = Some ''m2''"
    "playerMatches ?s ''erin'' = Some ''m3''"
    by code_simp+
  have m1: "map_option (expired (6000000 - 3600000)) (map_of (matches ?s) ''m1'') = Some True"
    "map_option player2Id (map_of (matches ?s) ''m1'') = Some ''bob''"
    by code_simp+
  then obtain m where m: "map_of (matches ?s) ''m1'' = Some m"
    "expired (6000000 - 3600000) m" "player2Id m = ''bob''"
    by auto
  have mem: "(''m1'', m) \<in> set (matches ?s)" using m(1) by (rule map_of_SomeD)
  have g: "\<forall>e \<in> set (matches ?s). expired (6000000 - 3600000) (snd e)
              \<longrightarrow> ''dave'' \<noteq> player1Id (snd e) \<and> ''dave'' \<noteq> player2Id (snd e)"
    "\<forall>e \<in> set (matches ?s). expired (6000000 - 3600000) (snd e)
              \<longrightarrow> ''erin'' \<noteq> player1Id (snd e) \<and> ''erin'' \<noteq> player2Id (snd e)"
    by code_simp+
  note t = C9_sweep_amended [OF a, of 6000000]
  have h: "map fst (matches (cleanupFinishedMatches 6000000 ?s)) = [''m2'', ''m3'']"
    using t e by simp
  have "\<forall>p. (p = player1Id (snd (''m1'', m)) \<or> p = player2Id (snd (''m1'', m)))
                    \<and> playerMatches ?s p = Some (fst (''m1'', m))
                  \<longrightarrow> playerMatches (cleanupFinishedMatches 6000000 ?s) p = None"
    using t mem m(2) by (metis snd_conv)
  then have i: "playerMatches (cleanupFinishedMatches 6000000 ?s) ''bob'' = None"
    using m(3) f(1) by simp
  have j: "playerMatches (cleanupFinishedMatches 6000000 ?s) ''dave'' = Some ''m2''"
    "playerMatches (cleanupFinishedMatches 6000000 ?s) ''erin'' = Some ''m3''"
    using t g f(2,3) by metis+
  show ?thesis using a b c d h f(1) i j by blast
qed

text \<open>
  What the amended claim leaves open is the mapping of a player of a deleted match that
  points to another match. Lines 248 and 249 delete by player identifier alone: Alice,
  who left \<open>''m1''\<close> and now plays in \<open>''m2''\<close>, loses her mapping to \<open>''m2''\<close> when
  \<open>''m1''\<close> is swept, while \<open>''m2''\<close> stays in the table, still being played.
\<close>

lemma sweep_unmaps_rejoined_player:
  "playerMatches (run rejoin_calls) ''alice'' = Some ''m2''
   \<and> map (state \<circ> snd) (matches (run rejoin_calls)) = [finished, playing]
   \<and> map fst (matches (cleanupFinishedMatches 6000000 (run rejoin_calls))) = [''m2'']
   \<and> map (state \<circ> snd) (matches (cleanupFinishedMatches 6000000 (run rejoin_calls))) = [playing]
   \<and> playerMatches (cleanupFinishedMatches 6000000 (run rejoin_calls)) ''alice'' = None"
  by code_simp

subsection \<open>C10: a correct answer given twice is paid twice\<close>

text \<open>
  C10: while the other player has not answered and the time is not up, a player with a
  numeric score who gives the correct answer of the current round twice is paid for both:
  neither call resolves the round, and the score has grown by the points of the first
  answer plus the points of the second. With the time limit 15 and both answers stamped
  within ten seconds of the anchor, that is more than 250 points in one round.
\<close>

theorem C10_double_scoring:
  assumes m: "map_of (matches s) matchId = Some m"
    and pl: "state m = playing"
    and cr: "round_at (rounds m) (currentRound m) = Some cr"
    and g1: "roundNumber g1 = currentRound m" "guess g1 = correctAnswer cr"
    and g2: "roundNumber g2 = currentRound m" "guess g2 = correctAnswer cr"
    and n: "scores m playerId = Some (Num n)"
    and other: "q = player1Id m \<or> q = player2Id m" "q \<noteq> playerId" "playerAnswers m q = None"
    and t1: "\<not> isRoundTimeUp m now1"
    and t2: "\<not> isRoundTimeUp m now2"
  shows "\<exists>s1 s2 m2. submitGuess matchId playerId g1 now1 s = (Inr None, s1)
      \<and> submitGuess matchId playerId g2 now2 s1 = (Inr None, s2)
      \<and> map_of (matches s2) matchId = Some m2
      \<and> state m2 = playing \<and> currentRound m2 = currentRound m
      \<and> scores m2 playerId = Some (Num (n
            + points (timestamp g1) (roundStartTime m) (roundTimeLimit m)
            + points (timestamp g2) (roundStartTime m) (roundTimeLimit m)))
      \<and> (roundTimeLimit m = 15 \<and> timestamp g1 - or0 (roundStartTime m) \<le> 10000
            \<and> timestamp g2 - or0 (roundStartTime m) \<le> 10000
          \<longrightarrow> 250 < points (timestamp g1) (roundStartTime m) (roundTimeLimit m)
                    + points (timestamp g2) (roundStartTime m) (roundTimeLimit m))"
proof -
  let ?m1 = "scored m cr playerId g1"
  let ?s1 = "s\<lparr>matches := AList.update matchId ?m1 (matches s)\<rparr>"
  let ?m2 = "scored ?m1 cr playerId g2"
  let ?s2 = "?s1\<lparr>matches := AList.update matchId ?m2 (matches ?s1)\<rparr>"
  have q1: "playerAnswers ?m1 q = None"
    using other by (simp add: scored_fields)
  have na1: "\<not> ((playerAnswers ?m1 (player1Id m) \<noteq> None \<and> playerAnswers ?m1 (player2Id m) \<noteq> None)
                 \<or> isRoundTimeUp ?m1 now1)"
    using other(1) q1 t1 by (auto simp: isRoundTimeUp_scored)
  have e1: "submitGuess matchId playerId g1 now1 s = (Inr None, ?s1)"
    unfolding submitGuess_accepted [OF m pl g1(1) cr]
    using na1 by (simp only: if_False)
  have m1: "map_of (matches ?s1) matchId = Some ?m1"
    by (simp add: map_of_update_same)
  have pl1: "state ?m1 = playing" using pl by (simp add: scored_fields)
  have r1: "roundNumber g2 = currentRound ?m1" using g2(1) by (simp add: scored_fields)
  have cr1: "round_at (rounds ?m1) (currentRound ?m1) = Some cr"
    using cr by (simp add: scored_fields)
  have q2: "playerAnswers ?m2 q = None"
    using other q1 by (simp add: scored_fields)
  have na2: "\<not> ((playerAnswers ?m2 (player1Id ?m1) \<noteq> None \<and> playerAnswers ?m2 (player2Id ?m1) \<noteq> None)
                 \<or> isRoundTimeUp ?m2 now2)"
    using other(1) q2 t2 by (auto simp: isRoundTimeUp_scored scored_fields)
  have e2: "submitGuess matchId playerId g2 now2 ?s1 = (Inr None, ?s2)"
    unfolding submitGuess_accepted [OF m1 pl1 r1 cr1]
    using na2 by (simp only: if_False)
  have m2: "map_of (matches ?s2) matchId = Some ?m2"
    by (simp add: map_of_update_same)
  have f: "state ?m2 = playing \<and> currentRound ?m2 = currentRound m"
    using pl by (simp add: scored_fields)
  have sc1: "scores ?m1 playerId = Some (Num (n + points (timestamp g1) (roundStartTime m) (roundTimeLimit m)))"
    using n by (simp add: scored_correct [OF g1(2)])
  have sc2: "scores ?m2 playerId = Some (Num (n
            + points (timestamp g1) (roundStartTime m) (roundTimeLimit m)
            + points (timestamp g2) (roundStartTime m) (roundTimeLimit m)))"
    using sc1 by (simp add: scored_correct [OF g2(2)] scored_fields)
  have big: "roundTimeLimit m = 15 \<and> timestamp g1 - or0 (roundStartTime m) \<le> 10000
            \<and> timestamp g2 - or0 (roundStartTime m) \<le> 10000
          \<longrightarrow> 250 < points (timestamp g1) (roundStartTime m) (roundTimeLimit m)
                    + points (timestamp g2) (roundStartTime m) (roundTimeLimit m)"
    using points_ge_150 [of "timestamp g1" "roundStartTime m"]
      points_ge_150 [of "timestamp g2" "roundStartTime m"] by auto
  show ?thesis using e1 e2 m2 f sc2 big by blast
qed

theorem C10_double_scoring_witness:
  "\<exists>s1 s2 m2.
      submitGuess ''m1'' ''alice'' \<lparr>roundNumber = 1, guess = ''Dynamite'', timestamp = 1000000\<rparr>
        1000000 (run opening_calls) = (Inr None, s1)
    \<and> submitGuess ''m1'' ''alice'' \<lparr>roundNumber = 1, guess = ''Dynamite'', timestamp = 1000000\<rparr>
        1000001 s1 = (Inr None, s2)
    \<and> map_of (matches s2) ''m1'' = Some m2
    \<and> state m2 = playing \<and> currentRound m2 = 1
    \<and> scores m2 ''alice'' = Some (Num 500)"
proof -
  let ?g = "\<lparr>roundNumber = 1, guess = ''Dynamite'', timestamp = 1000000\<rparr>"
  have m: "map_of (matches (run opening_calls)) ''m1'' = Some opening_match"
    by (simp add: run_opening_calls)
  have pl: "state opening_match = playing" by (simp add: opening_match_def)
  have cr: "round_at (rounds opening_match) (currentRound opening_match) = Some (songDatabase ! 0)"
    by (simp add: opening_match_def round_at_def songDatabase_def)
  have g: "roundNumber ?g = currentRound opening_match" "guess ?g = correctAnswer (songDatabase ! 0)"
    by (simp_all add: opening_match_def songDatabase_def)
  have n: "scores opening_match ''alice'' = Some (Num 0)" by (simp add: opening_match_def)
  have other: "''bob'' = player1Id opening_match \<or> ''bob'' = player2Id opening_match"
    "''bob'' \<noteq> ''alice''" "playerAnswers opening_match ''bob'' = None"
    by (simp_all add: opening_match_def)
  have t: "\<not> isRoundTimeUp opening_match 1000000" "\<not> isRoundTimeUp opening_match 1000001"
    by (simp_all add: isRoundTimeUp_def opening_match_def)
  have p: "points 1000000 (roundStartTime opening_match) (roundTimeLimit opening_match) = 250"
    by code_simp
  have c: "currentRound opening_match = 1" by (simp add: opening_match_def)
  obtain s1 s2 m2 where r:
    "submitGuess ''m1'' ''alice'' ?g 1000000 (run opening_calls) = (Inr None, s1)"
    "submitGuess ''m1'' ''alice'' ?g 1000001 s1 = (Inr None, s2)"
    "map_of (matches s2) ''m1'' = Some m2"
    "state m2 = playing" "currentRound m2 = currentRound opening_match"
    "scores m2 ''alice'' = Some (Num (0
        + points (timestamp ?g) (roundStartTime opening_match) (roundTimeLimit opening_match)
        + points (timestamp ?g) (roundStartTime opening_match) (roundTimeLimit opening_match)))"
    using C10_double_scoring [OF m pl cr g g n other t] by blast
  have "scores m2 ''alice'' = Some (Num 500)"
    using r(6) by (simp add: p)
  then show ?thesis using r(1-5) c by auto
qed

end
